theory Spec2Isabelle
  imports Main "HOL-Library.Multiset" "HOL-Library.Product_Lexorder" "HOL-Library.Sublist"
begin

section \<open>Python values\<close>

text \<open>
  A Python \<^verbatim>\<open>str\<close> is a sequence of Unicode code points, so it is modelled as a list of
  natural numbers: \<^verbatim>\<open>len\<close> is \<open>length\<close>, a slice \<^verbatim>\<open>s[:50]\<close> is \<open>take 50\<close>, and
  \<^verbatim>\<open>+\<close> is \<open>@\<close>. \<open>py\<close> turns an ASCII literal into such a string.
\<close>

type_synonym pystr = "nat list"

definition py :: "string \<Rightarrow> pystr" where
  "py s = map of_char s"

text \<open>
  Exceptions are values. \<open>ValueError\<close> is what \<^verbatim>\<open>datetime.strptime\<close> raises; \<open>Exception\<close>
  stands for any other exception a library call may raise.
\<close>

datatype error = ValueError | Exception

text \<open>\<^verbatim>\<open>str(n)\<close> and the format \<^verbatim>\<open>{n:03d}\<close> of a non-negative integer.\<close>

fun str_nat :: "nat \<Rightarrow> pystr" where
  "str_nat n = (if n < 10 then [48 + n] else str_nat (n div 10) @ [48 + n mod 10])"

declare str_nat.simps [simp del]

definition format_03d :: "nat \<Rightarrow> pystr" where
  "format_03d n = replicate (3 - length (str_nat n)) 48 @ str_nat n"

section \<open>create\_unique\_ids.py\<close>

subsection \<open>The data frame\<close>

text \<open>
  A cell read back by \<^verbatim>\<open>pd.read_csv\<close> is a string or, where the CSV field was empty, NaN
  (\<open>None\<close>). The frame carries the default \<^verbatim>\<open>RangeIndex\<close> that \<^verbatim>\<open>read_csv\<close> gives it in
  \<^verbatim>\<open>main\<close>, so the label of a row is its position and a frame is the list of its rows.
\<close>

type_synonym cell = "pystr option"

record row =
  Sector :: cell
  Project_Name :: cell
  Type :: cell
  URL :: cell
  Date :: cell
  File_Size :: cell

record identified_row = row +
  Document_ID :: pystr

text \<open>
  A \<^verbatim>\<open>datetime\<close> at midnight is (year, month, day); tuples compare lexicographically, as
  datetimes do.
\<close>

type_synonym datetime = "nat \<times> nat \<times> nat"

subsection \<open>Library functions the code calls\<close>

text \<open>
  \<^verbatim>\<open>datetime.strptime(s, '%d.%m.%Y')\<close> is a parameter \<open>strptime\<close> of the model, of type
  \<^typ>\<open>pystr \<Rightarrow> error + datetime\<close>. \<open>strptime_dmY\<close> below is its behaviour on ASCII input,
  used to evaluate examples: the text must be day, dot, month, dot, four-digit year, with
  the day from \<^verbatim>\<open>3[0-1]|[1-2]\d|0[1-9]|[1-9]| [1-9]\<close>, the month from
  \<^verbatim>\<open>1[0-2]|0[1-9]|[1-9]\<close>, nothing after the year, and the date must exist.
\<close>

definition is_ascii_digit :: "nat \<Rightarrow> bool" where
  "is_ascii_digit c = (48 \<le> c \<and> c \<le> 57)"

definition int_of_digits :: "pystr \<Rightarrow> nat" where
  "int_of_digits s = foldl (\<lambda>acc c. 10 * acc + (c - 48)) 0 s"

definition day_directive :: "pystr \<Rightarrow> bool" where
  "day_directive s =
     (case s of
        [a, b] \<Rightarrow> (a = 51 \<and> (b = 48 \<or> b = 49)) \<or> ((a = 49 \<or> a = 50) \<and> is_ascii_digit b)
                 \<or> (a = 48 \<and> 49 \<le> b \<and> b \<le> 57) \<or> (a = 32 \<and> 49 \<le> b \<and> b \<le> 57)
      | [a] \<Rightarrow> 49 \<le> a \<and> a \<le> 57
      | _ \<Rightarrow> False)"

definition month_directive :: "pystr \<Rightarrow> bool" where
  "month_directive s =
     (case s of
        [a, b] \<Rightarrow> (a = 49 \<and> 48 \<le> b \<and> b \<le> 50) \<or> (a = 48 \<and> 49 \<le> b \<and> b \<le> 57)
      | [a] \<Rightarrow> 49 \<le> a \<and> a \<le> 57
      | _ \<Rightarrow> False)"

definition year_directive :: "pystr \<Rightarrow> bool" where
  "year_directive s = (length s = 4 \<and> list_all is_ascii_digit s)"

definition is_leap :: "nat \<Rightarrow> bool" where
  "is_leap y = (y mod 4 = 0 \<and> (y mod 100 \<noteq> 0 \<or> y mod 400 = 0))"

definition days_in_month :: "nat \<Rightarrow> nat \<Rightarrow> nat" where
  "days_in_month y m =
     (if m = 2 then (if is_leap y then 29 else 28)
      else if m = 4 \<or> m = 6 \<or> m = 9 \<or> m = 11 then 30 else 31)"

definition strptime_dmY :: "pystr \<Rightarrow> error + datetime" where
  "strptime_dmY s =
     (let d = takeWhile (\<lambda>c. c \<noteq> 46) s;
          r1 = drop 1 (dropWhile (\<lambda>c. c \<noteq> 46) s);
          m = takeWhile (\<lambda>c. c \<noteq> 46) r1;
          y = drop 1 (dropWhile (\<lambda>c. c \<noteq> 46) r1)
      in if s = d @ [46] @ m @ [46] @ y \<and> day_directive d \<and> month_directive m
            \<and> year_directive y
         then (let day = int_of_digits (filter is_ascii_digit d); month = int_of_digits m;
                   year = int_of_digits y
               in if 1 \<le> year \<and> day \<le> days_in_month year month
                  then Inr (year, month, day) else Inl ValueError)
         else Inl ValueError)"

text \<open>
  \<^verbatim>\<open>sort_values\<close> is called without \<^verbatim>\<open>kind\<close>, so pandas sorts with NumPy's default
  \<^verbatim>\<open>'quicksort'\<close>; pandas documents only \<^verbatim>\<open>'mergesort'\<close> and \<^verbatim>\<open>'stable'\<close> as stable. The
  sorting routine is therefore a parameter \<open>argsort\<close>: from the keys it returns the
  positions in sorted order. \<open>is_argsort\<close> says what every kind guarantees: a permutation
  of the positions that puts the keys in ascending order.
\<close>

definition is_argsort :: "(datetime list \<Rightarrow> nat list) \<Rightarrow> bool" where
  "is_argsort argsort =
     (\<forall>keys. mset (argsort keys) = mset [0..<length keys]
             \<and> sorted (map (\<lambda>k. keys ! k) (argsort keys)))"

definition stable_argsort :: "datetime list \<Rightarrow> nat list" where
  "stable_argsort keys = sort_key (\<lambda>k. keys ! k) [0..<length keys]"

text \<open>
  The routine behind the default kind is \<^verbatim>\<open>aquicksort_\<close> of NumPy's \<^verbatim>\<open>npysort/quicksort.cpp\<close>,
  an introsort on the index array \<^verbatim>\<open>tosort\<close>, which starts as \<open>0, 1, ..., n-1\<close>. Pointers
  into \<^verbatim>\<open>tosort\<close> are positions here, \<open>v\<close> holds the keys, and \<^verbatim>\<open>INTP_SWAP\<close> is
  \<open>swap_entries\<close>. The loops whose end rests on the data (the two scans
  \<^verbatim>\<open>do ++pi; while (v[*pi] < vp)\<close> and \<^verbatim>\<open>do --pj; while (vp < v[*pj])\<close>, the partition loop
  around them and the loop over the stack of pending ranges) return \<open>None\<close> where they
  would not return.
\<close>

definition swap_entries :: "nat list \<Rightarrow> nat \<Rightarrow> nat \<Rightarrow> nat list" where
  "swap_entries tosort i j = tosort[i := tosort ! j, j := tosort ! i]"

text \<open>\<^verbatim>\<open>npy_get_msb(n)\<close>: how often \<open>n\<close> can be halved before it is zero, less one.\<close>

fun npy_get_msb :: "nat \<Rightarrow> nat" where
  "npy_get_msb n = (if n < 2 then 0 else Suc (npy_get_msb (n div 2)))"

declare npy_get_msb.simps [simp del]

text \<open>The three conditional swaps that put the median of first, middle and last at \<open>pm\<close>.\<close>

definition median_of_three :: "datetime list \<Rightarrow> nat list \<Rightarrow> nat \<Rightarrow> nat \<Rightarrow> nat \<Rightarrow> nat list" where
  "median_of_three v tosort pl pm pr =
     (let t1 = (if v ! (tosort ! pm) < v ! (tosort ! pl) then swap_entries tosort pm pl else tosort);
          t2 = (if v ! (t1 ! pr) < v ! (t1 ! pm) then swap_entries t1 pr pm else t1)
      in if v ! (t2 ! pm) < v ! (t2 ! pl) then swap_entries t2 pm pl else t2)"

text \<open>
  The partition around the pivot \<open>vp\<close>, which has been moved to \<open>pr - 1\<close>:
  \<^verbatim>\<open>for (;;) { do ++pi; while (v[*pi] < vp); do --pj; while (vp < v[*pj]);\<close>
  \<^verbatim>\<open>if (pi >= pj) break; INTP_SWAP(*pi, *pj); }\<close>. \<open>scan_up\<close> and \<open>scan_down\<close> are called
  on the position after the step \<^verbatim>\<open>++pi\<close> or \<^verbatim>\<open>--pj\<close>.
\<close>

partial_function (option) scan_up :: "datetime list \<Rightarrow> nat list \<Rightarrow> datetime \<Rightarrow> nat \<Rightarrow> nat option" where
  "scan_up v tosort vp pi =
     (if v ! (tosort ! pi) < vp then scan_up v tosort vp (pi + 1) else Some pi)"

declare scan_up.simps [code]

partial_function (option) scan_down :: "datetime list \<Rightarrow> nat list \<Rightarrow> datetime \<Rightarrow> nat \<Rightarrow> nat option" where
  "scan_down v tosort vp pj =
     (if vp < v ! (tosort ! pj) then scan_down v tosort vp (pj - 1) else Some pj)"

declare scan_down.simps [code]

partial_function (option) partition_loop ::
  "datetime list \<Rightarrow> nat list \<Rightarrow> datetime \<Rightarrow> nat \<Rightarrow> nat \<Rightarrow> (nat list \<times> nat) option" where
  "partition_loop v tosort vp pi pj =
     Option.bind (scan_up v tosort vp (pi + 1)) (\<lambda>pi'.
     Option.bind (scan_down v tosort vp (pj - 1)) (\<lambda>pj'.
       if pi' \<ge> pj' then Some (tosort, pi')
       else partition_loop v (swap_entries tosort pi' pj') vp pi' pj'))"

declare partition_loop.simps [code]

text \<open>
  The insertion sort that finishes a range of at most 17 entries:
  \<^verbatim>\<open>while (pj > pl && v[vi] < v[*pk]) *pj-- = *pk--;\<close> and \<^verbatim>\<open>*pj = vi\<close>, for \<open>pi\<close> from
  \<open>pl + 1\<close> to \<open>pr\<close>.
\<close>

function insert_shift ::
  "datetime list \<Rightarrow> nat list \<Rightarrow> datetime \<Rightarrow> nat \<Rightarrow> nat \<Rightarrow> nat list \<times> nat" where
  "insert_shift v tosort vp pl pj =
     (if pj > pl \<and> vp < v ! (tosort ! (pj - 1))
      then insert_shift v (tosort[pj := tosort ! (pj - 1)]) vp pl (pj - 1)
      else (tosort, pj))"
  by pat_completeness auto
termination
  by (relation "measure (\<lambda>(v, tosort, vp, pl, pj). pj)") auto

declare insert_shift.simps [simp del]

definition insertion_sort :: "datetime list \<Rightarrow> nat list \<Rightarrow> nat \<Rightarrow> nat \<Rightarrow> nat list" where
  "insertion_sort v tosort pl pr =
     fold (\<lambda>pi t. let vi = t ! pi; vp = v ! vi
                   in case insert_shift v t vp pl pi of (t', pj) \<Rightarrow> t'[pj := vi])
       [pl + 1..<pr + 1] tosort"

text \<open>
  The main loop. \<open>partitioning\<close> is true inside \<^verbatim>\<open>while ((pr - pl) > SMALL_QUICKSORT)\<close>,
  with \<^verbatim>\<open>SMALL_QUICKSORT\<close> = 16, where the depth is not tested; a range taken from the
  stack is tested first and handed to heap sort when its depth has fallen below zero.
  The heap sort \<^verbatim>\<open>aheapsort_\<close> is a parameter: it gets the keys, \<^verbatim>\<open>tosort\<close>, the start of
  the range and its length. The stack holds (pl, pr, depth).
\<close>

partial_function (option) aquicksort_loop ::
  "(datetime list \<Rightarrow> nat list \<Rightarrow> nat \<Rightarrow> nat \<Rightarrow> nat list) \<Rightarrow> datetime list \<Rightarrow> nat list
     \<Rightarrow> nat \<Rightarrow> nat \<Rightarrow> (nat \<times> nat \<times> int) list \<Rightarrow> int \<Rightarrow> bool \<Rightarrow> nat list option" where
  "aquicksort_loop aheapsort v tosort pl pr stack cdepth partitioning =
     (if \<not> partitioning \<and> cdepth < 0 then
        (case stack of
           [] \<Rightarrow> Some (aheapsort v tosort pl (pr - pl + 1))
         | (pl', pr', cdepth') # stack' \<Rightarrow>
             aquicksort_loop aheapsort v (aheapsort v tosort pl (pr - pl + 1)) pl' pr' stack' cdepth' False)
      else if pr - pl > 16 then
        (let pm = pl + (pr - pl) div 2;
             t1 = median_of_three v tosort pl pm pr;
             vp = v ! (t1 ! pm);
             t2 = swap_entries t1 pm (pr - 1)
         in Option.bind (partition_loop v t2 vp pl (pr - 1)) (\<lambda>found.
              case found of (t3, pi) \<Rightarrow>
                let t4 = swap_entries t3 pi (pr - 1)
                in if pi - pl < pr - pi
                   then aquicksort_loop aheapsort v t4 pl (pi - 1)
                          ((pi + 1, pr, cdepth - 1) # stack) (cdepth - 1) True
                   else aquicksort_loop aheapsort v t4 (pi + 1) pr
                          ((pl, pi - 1, cdepth - 1) # stack) (cdepth - 1) True))
      else
        (case stack of
           [] \<Rightarrow> Some (insertion_sort v tosort pl pr)
         | (pl', pr', cdepth') # stack' \<Rightarrow>
             aquicksort_loop aheapsort v (insertion_sort v tosort pl pr) pl' pr' stack' cdepth' False))"

declare aquicksort_loop.simps [code]

definition aquicksort ::
  "(datetime list \<Rightarrow> nat list \<Rightarrow> nat \<Rightarrow> nat \<Rightarrow> nat list) \<Rightarrow> datetime list \<Rightarrow> nat list option" where
  "aquicksort aheapsort v =
     aquicksort_loop aheapsort v [0..<length v] 0 (length v - 1) []
       (2 * int (npy_get_msb (length v))) False"

text \<open>
  As the \<open>argsort\<close> of \<^verbatim>\<open>sort_values\<close>; a run that does not return has no positions to
  give.
\<close>

definition numpy_argsort ::
  "(datetime list \<Rightarrow> nat list \<Rightarrow> nat \<Rightarrow> nat \<Rightarrow> nat list) \<Rightarrow> datetime list \<Rightarrow> nat list" where
  "numpy_argsort aheapsort keys =
     (case aquicksort aheapsort keys of Some tosort \<Rightarrow> tosort | None \<Rightarrow> [])"

text \<open>
  For the example of 18 keys below the depth starts at 8 and one partition is made, so
  heap sort is never called; \<open>heapsort_not_reached\<close> fills the parameter there.
\<close>

definition heapsort_not_reached :: "datetime list \<Rightarrow> nat list \<Rightarrow> nat \<Rightarrow> nat \<Rightarrow> nat list" where
  "heapsort_not_reached v tosort pl n = tosort"

text \<open>
  \<^verbatim>\<open>random.shuffle\<close> draws from the generator of the \<^verbatim>\<open>random\<close> module, which is shared
  by the whole process. Its state is modelled by the sequence of numbers it is going to
  hand out (\<open>g k\<close> is the one after \<open>k\<close> draws); \<^verbatim>\<open>_randbelow(n)\<close> takes the next one,
  reduced below \<open>n\<close>. The shuffle is the library's loop
  \<^verbatim>\<open>for i in reversed(range(1, len(x))): j = randbelow(i + 1); x[i], x[j] = x[j], x[i]\<close>.
\<close>

type_synonym rng = "nat \<Rightarrow> nat"

definition randbelow :: "rng \<Rightarrow> nat \<Rightarrow> nat \<times> rng" where
  "randbelow g n = (g 0 mod n, (\<lambda>k. g (Suc k)))"

fun shuffle_loop :: "nat \<Rightarrow> rng \<Rightarrow> 'a list \<Rightarrow> 'a list \<times> rng" where
  "shuffle_loop 0 g x = (x, g)"
| "shuffle_loop (Suc i) g x =
     (case randbelow g (Suc i + 1) of
        (j, g') \<Rightarrow> shuffle_loop i g' (x[Suc i := x ! j, j := x ! Suc i]))"

definition random_shuffle :: "rng \<Rightarrow> 'a list \<Rightarrow> 'a list \<times> rng" where
  "random_shuffle g x = shuffle_loop (length x - 1) g x"

subsection \<open>create\_unique\_ids\<close>

definition sector_mapping :: "(pystr \<times> nat) list" where
  "sector_mapping =
     [(py ''Doprava'', 1), (py ''Informatizacia'', 2), (py ''Budovy'', 3),
      (py ''Obrana'', 4), (py ''Ostatne'', 5)]"

definition parse_date :: "(pystr \<Rightarrow> error + datetime) \<Rightarrow> cell \<Rightarrow> datetime option" where
  "parse_date strptime date_str =
     (case date_str of
        None \<Rightarrow> None
      | Some s \<Rightarrow>
          if s = [] then None
          else (case strptime s of Inr d \<Rightarrow> Some d | Inl e \<Rightarrow> None))"

text \<open>The lines the function prints.\<close>

datatype event =
    Processing_sector pystr nat
  | No_documents_found pystr
  | Found_documents nat pystr
  | Assigned_with_date pystr nat
  | Assigned_without_date pystr nat

text \<open>
  What changes while the sectors are processed: the \<^verbatim>\<open>Document_ID\<close> column of
  \<^verbatim>\<open>df_with_ids\<close>, the state of the random generator, and the printed output.
\<close>

record state =
  ids :: "pystr list"
  random_state :: rng
  stdout :: "event list"

text \<open>\<^verbatim>\<open>f"{sector_id}.{i:03d}"\<close>\<close>

definition doc_id :: "nat \<Rightarrow> nat \<Rightarrow> pystr" where
  "doc_id sector_id i = str_nat sector_id @ [46] @ format_03d i"

text \<open>
  \<^verbatim>\<open>sector_df.sort_values('Date_parsed', na_position='last')\<close> on the row labels of the
  sector: the rows with a date in the order \<open>argsort\<close> gives, then the rows without one in
  the order they had.
\<close>

definition sort_values ::
  "(datetime list \<Rightarrow> nat list) \<Rightarrow> datetime option list \<Rightarrow> nat list \<Rightarrow> nat list" where
  "sort_values argsort Date_parsed sector_df =
     (let non_nans = filter (\<lambda>idx. Date_parsed ! idx \<noteq> None) sector_df;
          nans = filter (\<lambda>idx. Date_parsed ! idx = None) sector_df
      in map (\<lambda>k. non_nans ! k) (argsort (map (\<lambda>idx. the (Date_parsed ! idx)) non_nans))
         @ nans)"

text \<open>The body of the loop over \<^verbatim>\<open>sector_mapping.items()\<close>.\<close>

definition process_sector ::
  "(datetime list \<Rightarrow> nat list) \<Rightarrow> row list \<Rightarrow> datetime option list
     \<Rightarrow> pystr \<times> nat \<Rightarrow> state \<Rightarrow> state" where
  "process_sector argsort df Date_parsed item st =
     (case item of (sector, sector_id) \<Rightarrow>
      let out1 = stdout st @ [Processing_sector sector sector_id];
          sector_df = filter (\<lambda>idx. Sector (df ! idx) = Some sector) [0..<length df]
      in if length sector_df = 0
         then st\<lparr>stdout := out1 @ [No_documents_found sector]\<rparr>
         else
           let out2 = out1 @ [Found_documents (length sector_df) sector];
               sorted_df = sort_values argsort Date_parsed sector_df;
               date_documents = filter (\<lambda>idx. Date_parsed ! idx \<noteq> None) sorted_df;
               no_date_documents = filter (\<lambda>idx. Date_parsed ! idx = None) sorted_df;
               ids1 = fold (\<lambda>(i, idx) col. col[idx := doc_id sector_id i])
                        (enumerate 1 date_documents) (ids st);
               out3 = out2 @ map (\<lambda>(i, idx). Assigned_with_date (doc_id sector_id i) idx)
                        (enumerate 1 date_documents)
           in if length no_date_documents > 0
              then
                let max_id = length date_documents
                in (case random_shuffle (random_state st) no_date_documents of
                      (no_date_indices, g') \<Rightarrow>
                        \<lparr>ids = fold (\<lambda>(i, idx) col. col[idx := doc_id sector_id (max_id + i + 1)])
                                 (enumerate 0 no_date_indices) ids1,
                         random_state = g',
                         stdout = out3 @ map (\<lambda>(i, idx).
                                    Assigned_without_date (doc_id sector_id (max_id + i + 1)) idx)
                                    (enumerate 0 no_date_indices)\<rparr>)
              else \<lparr>ids = ids1, random_state = random_state st, stdout = out3\<rparr>)"

text \<open>
  The call: the returned frame (the input rows with the \<^verbatim>\<open>Document_ID\<close> column, the
  \<^verbatim>\<open>Date_parsed\<close> column dropped), and its two effects, on the random generator and on the
  standard output.
\<close>

record call =
  returned :: "identified_row list"
  random_after :: rng
  printed :: "event list"

definition create_unique_ids ::
  "(pystr \<Rightarrow> error + datetime) \<Rightarrow> (datetime list \<Rightarrow> nat list) \<Rightarrow> rng \<Rightarrow> row list \<Rightarrow> call" where
  "create_unique_ids strptime argsort g df =
     (let Date_parsed = map (\<lambda>r. parse_date strptime (Date r)) df;
          st0 = \<lparr>ids = replicate (length df) [], random_state = g, stdout = []\<rparr>;
          st = fold (process_sector argsort df Date_parsed) sector_mapping st0
      in \<lparr>returned = map2 (\<lambda>r d. row.extend r (identified_row.fields d)) df (ids st),
          random_after = random_state st,
          printed = stdout st\<rparr>)"

subsection \<open>Vocabulary for the properties of create\_unique\_ids\<close>

text \<open>
  The parsed date of the row labelled \<open>idx\<close>; the rows of a sector with and without a date,
  in input order; the rows with a date in the order \<^verbatim>\<open>sort_values\<close> leaves them in.
\<close>

definition parsed :: "(pystr \<Rightarrow> error + datetime) \<Rightarrow> row list \<Rightarrow> nat \<Rightarrow> datetime option" where
  "parsed strptime df idx = parse_date strptime (Date (df ! idx))"

definition dated_rows :: "(pystr \<Rightarrow> error + datetime) \<Rightarrow> row list \<Rightarrow> pystr \<Rightarrow> nat list" where
  "dated_rows strptime df sector =
     filter (\<lambda>idx. Sector (df ! idx) = Some sector \<and> parsed strptime df idx \<noteq> None)
       [0..<length df]"

definition undated_rows :: "(pystr \<Rightarrow> error + datetime) \<Rightarrow> row list \<Rightarrow> pystr \<Rightarrow> nat list" where
  "undated_rows strptime df sector =
     filter (\<lambda>idx. Sector (df ! idx) = Some sector \<and> parsed strptime df idx = None)
       [0..<length df]"

definition date_order ::
  "(datetime list \<Rightarrow> nat list) \<Rightarrow> (pystr \<Rightarrow> error + datetime) \<Rightarrow> row list \<Rightarrow> pystr
     \<Rightarrow> nat list" where
  "date_order argsort strptime df sector =
     (let non_nans = dated_rows strptime df sector
      in map (\<lambda>k. non_nans ! k)
           (argsort (map (\<lambda>idx. the (parsed strptime df idx)) non_nans)))"

text \<open>The rows \<open>xs\<close> carry the identifiers of sector code \<open>c\<close> numbered 1, 2, ... in this order.\<close>

definition labelled :: "nat \<Rightarrow> nat list \<Rightarrow> pystr list \<Rightarrow> bool" where
  "labelled c xs col = (\<forall>k < length xs. col ! (xs ! k) = doc_id c (Suc k))"

text \<open>Reading an identifier back: the number before the dot and the number after it.\<close>

definition category_code :: "pystr \<Rightarrow> nat" where
  "category_code d = int_of_digits (takeWhile (\<lambda>ch. ch \<noteq> 46) d)"

definition sequence_number :: "pystr \<Rightarrow> nat" where
  "sequence_number d = int_of_digits (drop 1 (dropWhile (\<lambda>ch. ch \<noteq> 46) d))"

text \<open>The identifier and the sequence number a call gives the row labelled \<open>i\<close>.\<close>

definition assigned_id ::
  "(pystr \<Rightarrow> error + datetime) \<Rightarrow> (datetime list \<Rightarrow> nat list) \<Rightarrow> rng \<Rightarrow> row list \<Rightarrow> nat
     \<Rightarrow> pystr" where
  "assigned_id strptime argsort g df i =
     Document_ID (returned (create_unique_ids strptime argsort g df) ! i)"

definition assigned_sequence ::
  "(pystr \<Rightarrow> error + datetime) \<Rightarrow> (datetime list \<Rightarrow> nat list) \<Rightarrow> rng \<Rightarrow> row list \<Rightarrow> nat
     \<Rightarrow> nat" where
  "assigned_sequence strptime argsort g df i =
     sequence_number (assigned_id strptime argsort g df i)"

text \<open>The sector a printed line is about: the one it names, or the one of the row it names.\<close>

fun event_sector :: "row list \<Rightarrow> event \<Rightarrow> cell" where
  "event_sector df (Processing_sector sector sector_id) = Some sector"
| "event_sector df (No_documents_found sector) = Some sector"
| "event_sector df (Found_documents n sector) = Some sector"
| "event_sector df (Assigned_with_date d idx) = Sector (df ! idx)"
| "event_sector df (Assigned_without_date d idx) = Sector (df ! idx)"

subsection \<open>Example rows\<close>

definition example_row :: "string \<Rightarrow> string \<Rightarrow> row" where
  "example_row s d = \<lparr>Sector = Some (py s), Project_Name = Some (py ''P''), Type = Some (py ''hodnotenie''),
      URL = Some (py ''https://www.mfsr.sk/a.pdf''),
      Date = (if d = [] then None else Some (py d)), File_Size = None\<rparr>"

definition example_frame :: "row list" where
  "example_frame =
     [example_row ''Doprava'' ''01.01.2020'', example_row ''Doprava'' ''15.06.2019'',
      example_row ''Z'' ''15.06.2019'', example_row ''Doprava'' [], example_row ''Doprava'' ''x'']"

definition example_ties :: "row list" where
  "example_ties = [example_row ''Doprava'' ''01.01.2020'', example_row ''Doprava'' ''01.01.2020'']"

definition example_eighteen_ties :: "row list" where
  "example_eighteen_ties = replicate 18 (example_row ''Doprava'' ''01.01.2020'')"

definition example_unmapped :: "row list" where
  "example_unmapped = [example_row ''Z'' ''15.06.2019'', example_row ''Doprava'' ''15.06.2019'']"

definition example_undated :: "row list" where
  "example_undated = [example_row ''Doprava'' [], example_row ''Doprava'' []]"

section \<open>complete\_mfsr\_scraper.py and fixed\_mfsr\_scraper.py\<close>

subsection \<open>Library functions the scrapers call\<close>






subsection \<open>Regular expressions\<close>










subsection \<open>The nodes of a page\<close>




subsection \<open>extract\_date\_and\_size\<close>




subsection \<open>is\_pdf\_link and determine\_document\_type\<close>









subsection \<open>scrape\_sector\_page\<close>










subsection \<open>The classifier as the specification words it\<close>



subsection \<open>Vocabulary and examples for the scrapers\<close>









subsection \<open>The size pattern in words\<close>



section \<open>Properties of create\_unique\_ids\<close>

subsection \<open>Assignments by index and the shuffle\<close>
lemma fold_update_length:
  "length (fold (\<lambda>(i, idx) col. col[idx := f i]) ps col) = length col"
  by (induction ps arbitrary: col) (auto split: prod.splits)

lemma fold_update_other:
  "j \<notin> snd ` set ps \<Longrightarrow> fold (\<lambda>(i, idx) col. col[idx := f i]) ps col ! j = col ! j"
  by (induction ps arbitrary: col) (auto split: prod.splits)

lemma fold_enumerate_other:
  "j \<notin> set xs \<Longrightarrow> fold (\<lambda>(i, idx) col. col[idx := f i]) (enumerate n xs) col ! j = col ! j"
  by (rule fold_update_other) (auto simp: in_set_enumerate_eq)

lemma fold_enumerate_nth:
  "distinct xs \<Longrightarrow> k < length xs \<Longrightarrow> xs ! k < length col \<Longrightarrow>
   fold (\<lambda>(i, idx) col. col[idx := f i]) (enumerate n xs) col ! (xs ! k) = f (n + k)"
proof (induction xs arbitrary: n k col)
  case Nil
  then show ?case by simp
next
  case (Cons x xs)
  show ?case
  proof (cases k)
    case 0
    with Cons.prems show ?thesis
      by (simp add: fold_enumerate_other)
  next
    case (Suc k')
    with Cons.prems have "xs ! k' < length (col[x := f n])" "k' < length xs" "distinct xs"
      by simp_all
    from Cons.IH[OF this(3) this(2) this(1), of "Suc n"] Suc show ?thesis
      by simp
  qed
qed

lemma shuffle_loop_mset:
  "i < length x \<Longrightarrow> mset (fst (shuffle_loop i g x)) = mset x"
proof (induction i arbitrary: g x)
  case 0
  then show ?case by simp
next
  case (Suc i)
  have j: "g 0 mod (Suc i + 1) < length x"
  proof -
    have "g 0 mod (Suc i + 1) < Suc i + 1" by simp
    with Suc.prems show ?thesis by linarith
  qed
  have "mset (x[Suc i := x ! (g 0 mod (Suc i + 1)), g 0 mod (Suc i + 1) := x ! Suc i]) = mset x"
    using mset_swap[OF j Suc.prems] by simp
  with Suc show ?case
    by (simp add: randbelow_def)
qed

lemma random_shuffle_mset: "mset (fst (random_shuffle g x)) = mset x"
proof (cases x)
  case Nil
  then show ?thesis by (simp add: random_shuffle_def)
next
  case (Cons a list)
  then show ?thesis by (simp add: random_shuffle_def shuffle_loop_mset)
qed

subsection \<open>The order sort\_values leaves a sector in\<close>

lemma is_argsort_set: "is_argsort a \<Longrightarrow> set (a keys) = {0..<length keys}"
  unfolding is_argsort_def by (metis mset_eq_setD set_upt)

lemma is_argsort_distinct: "is_argsort a \<Longrightarrow> distinct (a keys)"
  unfolding is_argsort_def by (metis distinct_upt mset_eq_imp_distinct_iff)

lemma is_argsort_sorted: "is_argsort a \<Longrightarrow> sorted (map (\<lambda>k. keys ! k) (a keys))"
  unfolding is_argsort_def by blast

lemma mset_map_nth_perm:
  assumes "mset p = mset [0..<length xs]"
  shows "mset (map (\<lambda>k. xs ! k) p) = mset xs"
proof -
  have "mset (map (\<lambda>k. xs ! k) p) = image_mset (\<lambda>k. xs ! k) (mset p)" by simp
  also have "\<dots> = image_mset (\<lambda>k. xs ! k) (mset [0..<length xs])" using assms by simp
  also have "\<dots> = mset (map (\<lambda>k. xs ! k) [0..<length xs])" by simp
  also have "\<dots> = mset xs" by (simp add: map_nth)
  finally show ?thesis .
qed

lemma date_order_mset:
  "is_argsort a \<Longrightarrow> mset (date_order a P df s) = mset (dated_rows P df s)"
  unfolding date_order_def Let_def
  by (rule mset_map_nth_perm) (simp add: is_argsort_def)

lemma date_order_set: "is_argsort a \<Longrightarrow> set (date_order a P df s) = set (dated_rows P df s)"
  by (metis date_order_mset mset_eq_setD)

lemma dated_rows_distinct: "distinct (dated_rows P df s)"
  by (simp add: dated_rows_def)

lemma undated_rows_distinct: "distinct (undated_rows P df s)"
  by (simp add: undated_rows_def)

lemma date_order_distinct: "is_argsort a \<Longrightarrow> distinct (date_order a P df s)"
  by (metis date_order_mset dated_rows_distinct mset_eq_imp_distinct_iff)

lemma date_order_sorted:
  assumes "is_argsort a"
  shows "sorted (map (\<lambda>idx. the (parsed P df idx)) (date_order a P df s))"
proof -
  let ?nn = "dated_rows P df s"
  let ?keys = "map (\<lambda>idx. the (parsed P df idx)) ?nn"
  have "map (\<lambda>idx. the (parsed P df idx)) (date_order a P df s)
        = map (\<lambda>k. ?keys ! k) (a ?keys)"
    unfolding date_order_def Let_def map_map
    by (rule map_cong) (use is_argsort_set[OF assms, of ?keys] in auto)
  then show ?thesis
    using is_argsort_sorted[OF assms, of ?keys] by simp
qed

lemma in_dated_rows:
  "idx \<in> set (dated_rows P df s) \<longleftrightarrow> idx < length df \<and> Sector (df ! idx) = Some s \<and> parsed P df idx \<noteq> None"
  by (auto simp: dated_rows_def)

lemma in_undated_rows:
  "idx \<in> set (undated_rows P df s) \<longleftrightarrow> idx < length df \<and> Sector (df ! idx) = Some s \<and> parsed P df idx = None"
  by (auto simp: undated_rows_def)

lemma filter_notna_sector:
  "filter (\<lambda>idx. map (\<lambda>r. parse_date P (Date r)) df ! idx \<noteq> None)
     (filter (\<lambda>idx. Sector (df ! idx) = Some s) [0..<length df]) = dated_rows P df s"
  unfolding dated_rows_def filter_filter
  by (rule filter_cong) (auto simp: parsed_def)

lemma filter_isna_sector:
  "filter (\<lambda>idx. map (\<lambda>r. parse_date P (Date r)) df ! idx = None)
     (filter (\<lambda>idx. Sector (df ! idx) = Some s) [0..<length df]) = undated_rows P df s"
  unfolding undated_rows_def filter_filter
  by (rule filter_cong) (auto simp: parsed_def)

lemma sort_values_sector:
  "sort_values a (map (\<lambda>r. parse_date P (Date r)) df)
     (filter (\<lambda>idx. Sector (df ! idx) = Some s) [0..<length df])
   = date_order a P df s @ undated_rows P df s"
proof -
  have "map (\<lambda>idx. the (map (\<lambda>r. parse_date P (Date r)) df ! idx)) (dated_rows P df s)
        = map (\<lambda>idx. the (parsed P df idx)) (dated_rows P df s)"
    by (rule map_cong) (auto simp: parsed_def in_dated_rows)
  then show ?thesis
    by (simp only: sort_values_def Let_def filter_notna_sector filter_isna_sector date_order_def)
qed

lemma filter_date_order:
  assumes "is_argsort a"
  shows "filter (\<lambda>idx. map (\<lambda>r. parse_date P (Date r)) df ! idx \<noteq> None) (date_order a P df s)
         = date_order a P df s"
    and "filter (\<lambda>idx. map (\<lambda>r. parse_date P (Date r)) df ! idx = None) (date_order a P df s) = []"
proof -
  have "\<forall>idx \<in> set (date_order a P df s). map (\<lambda>r. parse_date P (Date r)) df ! idx \<noteq> None"
    using date_order_set[OF assms] by (auto simp: in_dated_rows parsed_def)
  then show "filter (\<lambda>idx. map (\<lambda>r. parse_date P (Date r)) df ! idx \<noteq> None) (date_order a P df s)
         = date_order a P df s"
    and "filter (\<lambda>idx. map (\<lambda>r. parse_date P (Date r)) df ! idx = None) (date_order a P df s) = []"
    by (simp_all add: filter_empty_conv del: not_None_eq)
qed

lemma filter_undated_rows:
  shows "filter (\<lambda>idx. map (\<lambda>r. parse_date P (Date r)) df ! idx \<noteq> None) (undated_rows P df s) = []"
    and "filter (\<lambda>idx. map (\<lambda>r. parse_date P (Date r)) df ! idx = None) (undated_rows P df s)
         = undated_rows P df s"
proof -
  have "\<forall>idx \<in> set (undated_rows P df s). map (\<lambda>r. parse_date P (Date r)) df ! idx = None"
    by (auto simp: in_undated_rows parsed_def)
  then show "filter (\<lambda>idx. map (\<lambda>r. parse_date P (Date r)) df ! idx \<noteq> None) (undated_rows P df s) = []"
    and "filter (\<lambda>idx. map (\<lambda>r. parse_date P (Date r)) df ! idx = None) (undated_rows P df s)
         = undated_rows P df s"
    by (simp_all add: filter_empty_conv del: not_None_eq)
qed

lemma sector_empty:
  assumes "is_argsort a" "filter (\<lambda>idx. Sector (df ! idx) = Some s) [0..<length df] = []"
  shows "date_order a P df s = []" "undated_rows P df s = []"
proof -
  have "dated_rows P df s = []"
    using filter_notna_sector[of P df s] assms(2) by simp
  then show "date_order a P df s = []"
    using date_order_set[OF assms(1), of P df s] by simp
  show "undated_rows P df s = []"
    using filter_isna_sector[of P df s] assms(2) by simp
qed

text \<open>The column after one sector has been processed.\<close>

lemma process_sector_ids:
  assumes "is_argsort a"
  shows "\<exists>us. mset us = mset (undated_rows P df s) \<and>
           ids (process_sector a df (map (\<lambda>r. parse_date P (Date r)) df) (s, c) st)
           = fold (\<lambda>(i, idx) col. col[idx := doc_id c (length (date_order a P df s) + i + 1)])
               (enumerate 0 us)
               (fold (\<lambda>(i, idx) col. col[idx := doc_id c i])
                  (enumerate 1 (date_order a P df s)) (ids st))"
proof (cases "filter (\<lambda>idx. Sector (df ! idx) = Some s) [0..<length df] = []")
  case True
  then show ?thesis
    using sector_empty[OF assms True, of P]
    by (intro exI[of _ "[]"]) (simp add: process_sector_def)
next
  case False
  show ?thesis
  proof (cases "undated_rows P df s = []")
    case True
    with False show ?thesis
      by (intro exI[of _ "[]"])
        (simp add: process_sector_def Let_def sort_values_sector
          filter_date_order[OF assms] filter_undated_rows del: not_None_eq)
  next
    case nonempty: False
    obtain us g' where sh: "random_shuffle (random_state st) (undated_rows P df s) = (us, g')"
      by (cases "random_shuffle (random_state st) (undated_rows P df s)")
    then have "mset us = mset (undated_rows P df s)"
      using random_shuffle_mset[of "random_state st" "undated_rows P df s"] by simp
    with False nonempty sh show ?thesis
      by (intro exI[of _ us])
        (simp add: process_sector_def Let_def sort_values_sector
          filter_date_order[OF assms] filter_undated_rows del: not_None_eq)
  qed
qed

subsection \<open>The loop over the sectors\<close>

lemma process_sector_length:
  assumes "is_argsort a"
  shows "length (ids (process_sector a df (map (\<lambda>r. parse_date P (Date r)) df) (s, c) st))
         = length (ids st)"
  using process_sector_ids[OF assms, of P df s c st]
  by (auto simp: fold_update_length)

lemma process_sector_other:
  assumes "is_argsort a" "Sector (df ! j) \<noteq> Some s"
  shows "ids (process_sector a df (map (\<lambda>r. parse_date P (Date r)) df) (s, c) st) ! j = ids st ! j"
proof -
  obtain us where us: "mset us = mset (undated_rows P df s)"
    and eq: "ids (process_sector a df (map (\<lambda>r. parse_date P (Date r)) df) (s, c) st)
           = fold (\<lambda>(i, idx) col. col[idx := doc_id c (length (date_order a P df s) + i + 1)])
               (enumerate 0 us)
               (fold (\<lambda>(i, idx) col. col[idx := doc_id c i])
                  (enumerate 1 (date_order a P df s)) (ids st))"
    using process_sector_ids[OF assms(1), of P df s c st] by blast
  have "j \<notin> set us"
    using assms(2) us mset_eq_setD[OF us] by (auto simp: in_undated_rows)
  moreover have "j \<notin> set (date_order a P df s)"
    using assms(2) date_order_set[OF assms(1), of P df s] by (auto simp: in_dated_rows)
  ultimately show ?thesis
    unfolding eq by (simp add: fold_enumerate_other)
qed

lemma process_sector_labelled:
  assumes "is_argsort a" "length (ids st) = length df"
  shows "\<exists>us. mset us = mset (undated_rows P df s) \<and>
           labelled c (date_order a P df s @ us)
             (ids (process_sector a df (map (\<lambda>r. parse_date P (Date r)) df) (s, c) st))"
proof -
  let ?ds = "date_order a P df s"
  let ?col1 = "fold (\<lambda>(i, idx) col. col[idx := doc_id c i]) (enumerate 1 ?ds) (ids st)"
  obtain us where us: "mset us = mset (undated_rows P df s)"
    and eq: "ids (process_sector a df (map (\<lambda>r. parse_date P (Date r)) df) (s, c) st)
           = fold (\<lambda>(i, idx) col. col[idx := doc_id c (length ?ds + i + 1)])
               (enumerate 0 us) ?col1"
    using process_sector_ids[OF assms(1), of P df s c st] by blast
  have set_us: "set us = set (undated_rows P df s)"
    using us by (rule mset_eq_setD)
  have dist_us: "distinct us"
    using us undated_rows_distinct mset_eq_imp_distinct_iff by blast
  have dist_ds: "distinct ?ds"
    by (rule date_order_distinct[OF assms(1)])
  have set_ds: "set ?ds = set (dated_rows P df s)"
    by (rule date_order_set[OF assms(1)])
  have len1: "length ?col1 = length df"
    by (simp add: fold_update_length assms(2))
  have "labelled c (?ds @ us)
          (fold (\<lambda>(i, idx) col. col[idx := doc_id c (length ?ds + i + 1)]) (enumerate 0 us) ?col1)"
    unfolding labelled_def
  proof (intro allI impI)
    fix k assume k: "k < length (?ds @ us)"
    show "fold (\<lambda>(i, idx) col. col[idx := doc_id c (length ?ds + i + 1)]) (enumerate 0 us) ?col1
            ! ((?ds @ us) ! k) = doc_id c (Suc k)"
    proof (cases "k < length ?ds")
      case True
      then have mem: "?ds ! k \<in> set (dated_rows P df s)"
        using set_ds nth_mem by blast
      then have "?ds ! k \<notin> set us"
        using set_us by (auto simp: in_dated_rows in_undated_rows)
      moreover have "?ds ! k < length (ids st)"
        using mem assms(2) by (simp add: in_dated_rows)
      ultimately show ?thesis
        using True dist_ds
        by (simp add: nth_append fold_enumerate_other fold_enumerate_nth)
    next
      case False
      then have k': "k - length ?ds < length us"
        using k by simp
      then have "us ! (k - length ?ds) \<in> set (undated_rows P df s)"
        using set_us nth_mem by blast
      then have "us ! (k - length ?ds) < length ?col1"
        using len1 by (simp add: in_undated_rows)
      from fold_enumerate_nth[OF dist_us k' this,
          of "\<lambda>i. doc_id c (length ?ds + i + 1)" 0]
      show ?thesis
        using False by (simp add: nth_append)
    qed
  qed
  with us eq show ?thesis
    by auto
qed

lemma loop_length:
  assumes "is_argsort a"
  shows "length (ids (fold (process_sector a df (map (\<lambda>r. parse_date P (Date r)) df)) items st))
         = length (ids st)"
proof (induction items arbitrary: st)
  case Nil
  then show ?case by simp
next
  case (Cons item items)
  obtain s c where "item = (s, c)" by (cases item)
  with Cons show ?case
    by (simp add: process_sector_length[OF assms])
qed

lemma loop_other:
  assumes "is_argsort a" "\<forall>(s, c) \<in> set items. Sector (df ! j) \<noteq> Some s"
  shows "ids (fold (process_sector a df (map (\<lambda>r. parse_date P (Date r)) df)) items st) ! j
         = ids st ! j"
  using assms(2)
proof (induction items arbitrary: st)
  case Nil
  then show ?case by simp
next
  case (Cons item items)
  obtain s c where item: "item = (s, c)" by (cases item)
  with Cons.prems have "Sector (df ! j) \<noteq> Some s"
    by simp
  with Cons item show ?case
    by (simp add: process_sector_other[OF assms(1)])
qed

lemma loop_labelled:
  assumes "is_argsort a" "distinct (map fst items)" "length (ids st) = length df"
    "(s, c) \<in> set items"
  shows "\<exists>us. mset us = mset (undated_rows P df s) \<and>
           labelled c (date_order a P df s @ us)
             (ids (fold (process_sector a df (map (\<lambda>r. parse_date P (Date r)) df)) items st))"
  using assms(2-4)
proof (induction items arbitrary: st)
  case Nil
  then show ?case by simp
next
  case (Cons item items)
  let ?DP = "map (\<lambda>r. parse_date P (Date r)) df"
  let ?st1 = "process_sector a df ?DP item st"
  obtain s' c' where item: "item = (s', c')" by (cases item)
  have len1: "length (ids ?st1) = length df"
    using Cons.prems(2) item by (simp add: process_sector_length[OF assms(1)])
  show ?case
  proof (cases "(s, c) \<in> set items")
    case True
    from Cons.IH[OF _ len1 True] Cons.prems(1) show ?thesis
      by simp
  next
    case False
    with Cons.prems(3) item have sc: "s' = s" "c' = c"
      by auto
    obtain us where us: "mset us = mset (undated_rows P df s)"
      and lab: "labelled c (date_order a P df s @ us) (ids ?st1)"
      using process_sector_labelled[OF assms(1) Cons.prems(2), of P s c] item sc by blast
    have notin: "\<forall>(t, d) \<in> set items. t \<noteq> s"
      using Cons.prems(1) item sc by (auto simp: image_iff)
    have "labelled c (date_order a P df s @ us) (ids (fold (process_sector a df ?DP) items ?st1))"
      unfolding labelled_def
    proof (intro allI impI)
      fix k assume k: "k < length (date_order a P df s @ us)"
      then have "(date_order a P df s @ us) ! k \<in> set (date_order a P df s) \<union> set us"
        by (metis nth_mem set_append)
      then have "Sector (df ! ((date_order a P df s @ us) ! k)) = Some s"
        using date_order_set[OF assms(1), of P df s] mset_eq_setD[OF us]
        by (auto simp: in_dated_rows in_undated_rows)
      with notin have "\<forall>(t, d) \<in> set items. Sector (df ! ((date_order a P df s @ us) ! k)) \<noteq> Some t"
        by auto
      from loop_other[OF assms(1) this] lab k
      show "ids (fold (process_sector a df ?DP) items ?st1) ! ((date_order a P df s @ us) ! k)
            = doc_id c (Suc k)"
        by (simp add: labelled_def)
    qed
    with us show ?thesis
      by auto
  qed
qed

subsection \<open>Identifiers\<close>

lemma str_nat_digits: "ch \<in> set (str_nat n) \<Longrightarrow> 48 \<le> ch \<and> ch \<le> 57"
proof (induction n rule: str_nat.induct)
  case (1 n)
  show ?case
  proof (cases "n < 10")
    case True
    with "1.prems" show ?thesis
      by (simp add: str_nat.simps[of n])
  next
    case False
    have "n mod 10 < 10" by simp
    with False "1.prems" "1.IH" show ?thesis
      by (auto simp: str_nat.simps[of n])
  qed
qed

lemma str_nat_nonempty: "str_nat n \<noteq> []"
  by (subst str_nat.simps) simp

lemma int_of_digits_snoc: "int_of_digits (s @ [ch]) = 10 * int_of_digits s + (ch - 48)"
  by (simp add: int_of_digits_def)

lemma int_of_digits_str_nat: "int_of_digits (str_nat n) = n"
proof (induction n rule: str_nat.induct)
  case (1 n)
  show ?case
  proof (cases "n < 10")
    case True
    then show ?thesis
      by (simp add: str_nat.simps[of n] int_of_digits_def)
  next
    case False
    with "1.IH" show ?thesis
      by (simp add: str_nat.simps[of n] int_of_digits_snoc)
  qed
qed

lemma int_of_digits_zeros: "int_of_digits (replicate k 48 @ s) = int_of_digits s"
  by (induction k) (simp_all add: int_of_digits_def)

lemma int_of_digits_format_03d: "int_of_digits (format_03d n) = n"
  by (simp add: format_03d_def int_of_digits_zeros int_of_digits_str_nat)

lemma takeWhile_str_nat: "takeWhile (\<lambda>ch. ch \<noteq> 46) (str_nat c @ 46 # rest) = str_nat c"
proof -
  have "\<forall>ch \<in> set (str_nat c). ch \<noteq> 46"
    using str_nat_digits by fastforce
  then show ?thesis
    by (simp add: takeWhile_append)
qed

lemma dropWhile_str_nat: "dropWhile (\<lambda>ch. ch \<noteq> 46) (str_nat c @ 46 # rest) = 46 # rest"
proof -
  have "\<forall>ch \<in> set (str_nat c). ch \<noteq> 46"
    using str_nat_digits by fastforce
  then show ?thesis
    by (simp add: dropWhile_append)
qed

lemma category_code_doc_id: "category_code (doc_id c n) = c"
  by (simp add: category_code_def doc_id_def takeWhile_str_nat int_of_digits_str_nat)

lemma sequence_number_doc_id: "sequence_number (doc_id c n) = n"
  by (simp add: sequence_number_def doc_id_def dropWhile_str_nat int_of_digits_format_03d)

lemma doc_id_inject: "doc_id c n = doc_id c' n' \<longleftrightarrow> c = c' \<and> n = n'"
  by (metis category_code_doc_id sequence_number_doc_id)

lemma doc_id_nonempty: "doc_id c n \<noteq> []"
  by (simp add: doc_id_def)

lemma format_03d_length: "length (format_03d n) = max 3 (length (str_nat n))"
  by (simp add: format_03d_def)

lemma sector_mapping_distinct: "distinct (map fst sector_mapping)"
  by (simp add: sector_mapping_def py_def)

lemma sector_mapping_codes: "distinct (map snd sector_mapping)"
  by (simp add: sector_mapping_def)

lemma sector_mapping_inj:
  assumes "(s, c) \<in> set sector_mapping" "(s', c') \<in> set sector_mapping"
  shows "s = s' \<longleftrightarrow> c = c'"
  using assms by (auto simp: sector_mapping_def py_def)

lemma process_sector_length_any:
  "length (ids (process_sector a df DP item st)) = length (ids st)"
  by (simp add: process_sector_def Let_def fold_update_length split: prod.splits)

lemma loop_length_any:
  "length (ids (fold (process_sector a df DP) items st)) = length (ids st)"
  by (induction items arbitrary: st) (simp_all add: process_sector_length_any)

lemma returned_ids:
  "map Document_ID (returned (create_unique_ids P a g df))
   = ids (fold (process_sector a df (map (\<lambda>r. parse_date P (Date r)) df)) sector_mapping
        \<lparr>ids = replicate (length df) [], random_state = g, stdout = []\<rparr>)"
proof -
  let ?st = "fold (process_sector a df (map (\<lambda>r. parse_date P (Date r)) df)) sector_mapping
        \<lparr>ids = replicate (length df) [], random_state = g, stdout = []\<rparr>"
  have len: "length (ids ?st) = length df"
    by (simp add: loop_length_any)
  have "map Document_ID (map2 (\<lambda>r d. row.extend r (identified_row.fields d)) df (ids ?st))
        = ids ?st"
    using len
    by (intro nth_equalityI) (simp_all add: row.extend_def identified_row.fields_def)
  then show ?thesis
    by (simp add: create_unique_ids_def Let_def)
qed

lemma returned_length: "length (returned (create_unique_ids P a g df)) = length df"
  by (simp add: create_unique_ids_def Let_def loop_length_any)

lemma returned_truncate:
  "map row.truncate (returned (create_unique_ids P a g df)) = df"
proof -
  let ?st = "fold (process_sector a df (map (\<lambda>r. parse_date P (Date r)) df)) sector_mapping
        \<lparr>ids = replicate (length df) [], random_state = g, stdout = []\<rparr>"
  have len: "length (ids ?st) = length df"
    by (simp add: loop_length_any)
  have "map row.truncate (map2 (\<lambda>r d. row.extend r (identified_row.fields d)) df (ids ?st)) = df"
    using len
    by (intro nth_equalityI) (simp_all add: row.extend_def row.truncate_def identified_row.fields_def)
  then show ?thesis
    by (simp add: create_unique_ids_def Let_def)
qed

lemma stable_is_argsort: "is_argsort stable_argsort"
  by (simp add: is_argsort_def stable_argsort_def)

lemma rows_disjoint: "set (dated_rows P df s) \<inter> set (undated_rows P df s) = {}"
  by (auto simp: in_dated_rows in_undated_rows)

lemma order_distinct:
  assumes "is_argsort a" "mset us = mset (undated_rows P df s)"
  shows "distinct (date_order a P df s @ us)"
proof -
  have "distinct us"
    using assms(2) undated_rows_distinct mset_eq_imp_distinct_iff by blast
  moreover have "set (date_order a P df s) \<inter> set us = {}"
    using date_order_set[OF assms(1), of P df s] mset_eq_setD[OF assms(2)] rows_disjoint[of P df s]
    by simp
  ultimately show ?thesis
    by (simp add: date_order_distinct[OF assms(1)])
qed

lemma order_set:
  assumes "is_argsort a" "mset us = mset (undated_rows P df s)"
  shows "set (date_order a P df s @ us) = {i. i < length df \<and> Sector (df ! i) = Some s}"
  using date_order_set[OF assms(1), of P df s] mset_eq_setD[OF assms(2)]
  by (auto simp: in_dated_rows in_undated_rows)

lemma returned_nth:
  assumes "i < length df"
  shows "Document_ID (returned (create_unique_ids P a g df) ! i)
         = map Document_ID (returned (create_unique_ids P a g df)) ! i"
  using assms by (simp add: returned_length)

lemma final_labelled:
  assumes "is_argsort a" "(s, c) \<in> set sector_mapping"
  shows "\<exists>us. mset us = mset (undated_rows P df s) \<and>
           labelled c (date_order a P df s @ us)
             (map Document_ID (returned (create_unique_ids P a g df)))"
  unfolding returned_ids
  by (rule loop_labelled[OF assms(1) sector_mapping_distinct _ assms(2)]) simp

lemma final_unmapped:
  assumes "is_argsort a" "i < length df" "\<forall>(s, c) \<in> set sector_mapping. Sector (df ! i) \<noteq> Some s"
  shows "Document_ID (returned (create_unique_ids P a g df) ! i) = []"
  unfolding returned_nth[OF assms(2)] returned_ids
  using loop_other[OF assms(1) assms(3)] assms(2) by simp

text \<open>A row of a mapped sector carries the identifier of its position in the sector's order.\<close>

lemma final_position:
  assumes "is_argsort a" "(s, c) \<in> set sector_mapping"
    "mset us = mset (undated_rows P df s)"
    "labelled c (date_order a P df s @ us) (map Document_ID (returned (create_unique_ids P a g df)))"
    "i < length df" "Sector (df ! i) = Some s"
  shows "\<exists>k < length (date_order a P df s @ us). (date_order a P df s @ us) ! k = i \<and>
           Document_ID (returned (create_unique_ids P a g df) ! i) = doc_id c (Suc k)"
proof -
  have "i \<in> set (date_order a P df s @ us)"
    using order_set[OF assms(1,3)] assms(5,6) by blast
  then obtain k where k: "k < length (date_order a P df s @ us)" "(date_order a P df s @ us) ! k = i"
    by (meson in_set_conv_nth)
  with assms(4) have "map Document_ID (returned (create_unique_ids P a g df)) ! i = doc_id c (Suc k)"
    by (auto simp: labelled_def)
  with k show ?thesis
    using returned_nth[OF assms(5)] by auto
qed

lemma truncate_fields:
  "Sector (row.truncate r) = Sector r" "Project_Name (row.truncate r) = Project_Name r"
  "Type (row.truncate r) = Type r" "URL (row.truncate r) = URL r"
  "Date (row.truncate r) = Date r" "File_Size (row.truncate r) = File_Size r"
  by (simp_all add: row.truncate_def)

subsection \<open>The returned frame\<close>

text \<open>
  C10. For every input record set, the returned frame holds exactly the input's rows in the
  input's order: dropping the \<^verbatim>\<open>Document_ID\<close> column gives the input back, so the six
  columns \<^verbatim>\<open>Sector\<close>, \<^verbatim>\<open>Project Name\<close>, \<^verbatim>\<open>Type\<close>, \<^verbatim>\<open>URL\<close>, \<^verbatim>\<open>Date\<close> and \<^verbatim>\<open>File Size\<close> are
  unchanged, and the helper column \<^verbatim>\<open>Date_parsed\<close> is not part of the result.
\<close>

theorem create_unique_ids_frame:
  "map row.truncate (returned (create_unique_ids strptime argsort g df)) = df
   \<and> map Sector (returned (create_unique_ids strptime argsort g df)) = map Sector df
   \<and> map Project_Name (returned (create_unique_ids strptime argsort g df)) = map Project_Name df
   \<and> map Type (returned (create_unique_ids strptime argsort g df)) = map Type df
   \<and> map URL (returned (create_unique_ids strptime argsort g df)) = map URL df
   \<and> map Date (returned (create_unique_ids strptime argsort g df)) = map Date df
   \<and> map File_Size (returned (create_unique_ids strptime argsort g df)) = map File_Size df"
proof -
  let ?out = "returned (create_unique_ids strptime argsort g df)"
  have t: "map row.truncate ?out = df"
    by (rule returned_truncate)
  have "map f df = map (\<lambda>r. f (row.truncate r)) ?out" for f :: "row \<Rightarrow> cell"
    by (subst (1) t[symmetric]) (simp add: comp_def)
  from this[of Sector] this[of Project_Name] this[of Type] this[of URL] this[of Date]
    this[of File_Size] t
  show ?thesis
    by (simp add: truncate_fields)
qed

theorem create_unique_ids_frame_witness:
  "map row.truncate (returned (create_unique_ids strptime_dmY stable_argsort (\<lambda>k. 0)
      [example_row ''Doprava'' ''01.01.2020'', example_row ''Z'' []]))
   = [example_row ''Doprava'' ''01.01.2020'', example_row ''Z'' []]"
  using create_unique_ids_frame[of strptime_dmY stable_argsort "\<lambda>k. 0"
      "[example_row ''Doprava'' ''01.01.2020'', example_row ''Z'' []]"]
  by simp

subsection \<open>Format and uniqueness of the identifiers\<close>

text \<open>
  C5. Whatever the sorting routine and the state of the random generator, every row of a
  sector of \<open>sector_mapping\<close> gets \<^verbatim>\<open>Document_ID\<close> = the sector code, a dot, and a
  sequence number \<open>n \<ge> 1\<close> written in decimal and padded with zeros on the left up to three
  digits (all digits of a longer number are kept); and an identifier that has been given
  to a row differs from the \<^verbatim>\<open>Document_ID\<close> of every other row of the frame. The rows of
  other sectors keep the empty \<^verbatim>\<open>Document_ID\<close>, which \<^verbatim>\<open>main\<close> counts as "without ID".
\<close>

theorem document_id_format_and_uniqueness:
  assumes "is_argsort argsort"
  shows "(\<forall>i s c. i < length df \<and> Sector (df ! i) = Some s \<and> (s, c) \<in> set sector_mapping \<longrightarrow>
           (\<exists>n. 1 \<le> n \<and> n \<le> length df \<and>
              Document_ID (returned (create_unique_ids strptime argsort g df) ! i)
              = str_nat c @ [46] @ replicate (3 - length (str_nat n)) 48 @ str_nat n))
       \<and> (\<forall>i j. i < length df \<and> j < length df \<and> i \<noteq> j
             \<and> Document_ID (returned (create_unique_ids strptime argsort g df) ! i) \<noteq> []
             \<longrightarrow> Document_ID (returned (create_unique_ids strptime argsort g df) ! i)
                \<noteq> Document_ID (returned (create_unique_ids strptime argsort g df) ! j))"
proof (intro conjI allI impI)
  fix i s c
  assume h: "i < length df \<and> Sector (df ! i) = Some s \<and> (s, c) \<in> set sector_mapping"
  obtain us where us: "mset us = mset (undated_rows strptime df s)"
    and lab: "labelled c (date_order argsort strptime df s @ us)
                (map Document_ID (returned (create_unique_ids strptime argsort g df)))"
    using final_labelled[OF assms, of s c strptime df g] h by blast
  obtain k where k: "k < length (date_order argsort strptime df s @ us)"
    and id: "Document_ID (returned (create_unique_ids strptime argsort g df) ! i) = doc_id c (Suc k)"
    using final_position[OF assms _ us lab, of i] h by blast
  have "length (date_order argsort strptime df s @ us) \<le> length df"
  proof -
    have "distinct (date_order argsort strptime df s @ us)"
      by (rule order_distinct[OF assms us])
    then have "length (date_order argsort strptime df s @ us)
               = card (set (date_order argsort strptime df s @ us))"
      by (rule distinct_card[symmetric])
    also have "\<dots> \<le> card {0..<length df}"
    proof (rule card_mono)
      show "finite {0..<length df}" by simp
      show "set (date_order argsort strptime df s @ us) \<subseteq> {0..<length df}"
        unfolding order_set[OF assms us] by auto
    qed
    finally show ?thesis by simp
  qed
  with k have "1 \<le> Suc k \<and> Suc k \<le> length df"
    by simp
  moreover have "doc_id c (Suc k)
      = str_nat c @ [46] @ replicate (3 - length (str_nat (Suc k))) 48 @ str_nat (Suc k)"
    by (simp only: doc_id_def format_03d_def)
  ultimately show "\<exists>n. 1 \<le> n \<and> n \<le> length df \<and>
      Document_ID (returned (create_unique_ids strptime argsort g df) ! i)
      = str_nat c @ [46] @ replicate (3 - length (str_nat n)) 48 @ str_nat n"
    using id by (intro exI[of _ "Suc k"]) (simp only: simp_thms)
next
  fix i j
  let ?id = "\<lambda>i. Document_ID (returned (create_unique_ids strptime argsort g df) ! i)"
  assume h: "i < length df \<and> j < length df \<and> i \<noteq> j \<and> ?id i \<noteq> []"
  have mapped: "\<exists>s c. (s, c) \<in> set sector_mapping \<and> Sector (df ! i) = Some s"
  proof (rule ccontr)
    assume "\<not> ?thesis"
    then have "\<forall>(s, c) \<in> set sector_mapping. Sector (df ! i) \<noteq> Some s"
      by auto
    from final_unmapped[OF assms _ this] h show False
      by simp
  qed
  then obtain s c where sc: "(s, c) \<in> set sector_mapping" "Sector (df ! i) = Some s"
    by blast
  obtain us where us: "mset us = mset (undated_rows strptime df s)"
    and lab: "labelled c (date_order argsort strptime df s @ us)
                (map Document_ID (returned (create_unique_ids strptime argsort g df)))"
    using final_labelled[OF assms sc(1), of strptime df g] by blast
  obtain k where k: "k < length (date_order argsort strptime df s @ us)"
    "(date_order argsort strptime df s @ us) ! k = i"
    and id: "?id i = doc_id c (Suc k)"
    using final_position[OF assms sc(1) us lab, of i] h sc(2) by blast
  show "?id i \<noteq> ?id j"
  proof (cases "\<exists>s' c'. (s', c') \<in> set sector_mapping \<and> Sector (df ! j) = Some s'")
    case False
    then have "\<forall>(s, c) \<in> set sector_mapping. Sector (df ! j) \<noteq> Some s"
      by auto
    from final_unmapped[OF assms _ this] h show ?thesis
      by simp
  next
    case True
    then obtain s' c' where sc': "(s', c') \<in> set sector_mapping" "Sector (df ! j) = Some s'"
      by blast
    show ?thesis
    proof (cases "s' = s")
      case True
      with sc' sector_mapping_inj[OF sc(1) sc'(1)] have "c' = c"
        by simp
      obtain l where l: "l < length (date_order argsort strptime df s @ us)"
        "(date_order argsort strptime df s @ us) ! l = j"
        and idj: "?id j = doc_id c (Suc l)"
        using final_position[OF assms sc(1) us lab, of j] h sc'(2) True by blast
      have "k \<noteq> l"
        using k(2) l(2) h by auto
      with id idj show ?thesis
        by (simp add: doc_id_inject)
    next
      case False
      with sector_mapping_inj[OF sc(1) sc'(1)] have ne: "c \<noteq> c'"
        by auto
      obtain us' where us': "mset us' = mset (undated_rows strptime df s')"
        and lab': "labelled c' (date_order argsort strptime df s' @ us')
                (map Document_ID (returned (create_unique_ids strptime argsort g df)))"
        using final_labelled[OF assms sc'(1), of strptime df g] by blast
      obtain l where idj: "?id j = doc_id c' (Suc l)"
        using final_position[OF assms sc'(1) us' lab', of j] h sc'(2) by blast
      with id ne show ?thesis
        by (simp add: doc_id_inject)
    qed
  qed
qed

subsection \<open>Sequence numbers follow the dates\<close>

lemma sequence_of_position:
  assumes "is_argsort a" "(s, c) \<in> set sector_mapping"
    "mset us = mset (undated_rows P df s)"
    "labelled c (date_order a P df s @ us) (map Document_ID (returned (create_unique_ids P a g df)))"
    "k < length (date_order a P df s @ us)"
  shows "assigned_id P a g df ((date_order a P df s @ us) ! k) = doc_id c (Suc k)"
    and "assigned_sequence P a g df ((date_order a P df s @ us) ! k) = Suc k"
proof -
  have "(date_order a P df s @ us) ! k \<in> set (date_order a P df s @ us)"
    using assms(5) by (rule nth_mem)
  then have "(date_order a P df s @ us) ! k < length df"
    unfolding order_set[OF assms(1,3)] by simp
  from returned_nth[OF this, of P a g] assms(4,5)
  show "assigned_id P a g df ((date_order a P df s @ us) ! k) = doc_id c (Suc k)"
    by (simp add: labelled_def assigned_id_def)
  then show "assigned_sequence P a g df ((date_order a P df s @ us) ! k) = Suc k"
    by (simp add: assigned_sequence_def sequence_number_doc_id)
qed

lemma image_positions:
  assumes "\<forall>k < length xs. f (xs ! k) = n + k"
  shows "f ` set xs = {n..<n + length xs}"
proof -
  have "set xs = (\<lambda>k. xs ! k) ` {0..<length xs}"
    using nth_image[of "length xs" xs] by simp
  then have "f ` set xs = f ` ((\<lambda>k. xs ! k) ` {0..<length xs})"
    by (rule arg_cong)
  also have "\<dots> = (\<lambda>k. f (xs ! k)) ` {0..<length xs}"
    by (simp only: image_image)
  also have "(\<lambda>k. f (xs ! k)) ` {0..<length xs} = (\<lambda>k. n + k) ` {0..<length xs}"
    using assms by (intro image_cong) auto
  also have "\<dots> = {n..<n + length xs}"
    using image_add_atLeastLessThan[of n 0 "length xs"] by (simp add: add.commute)
  finally show ?thesis .
qed

text \<open>
  C4. In a sector of \<open>sector_mapping\<close> with \<open>D\<close> dated and \<open>U\<close> undated rows, every row
  carries the sector code and its sequence number; the dated rows carry exactly the
  sequence numbers \<open>1..D\<close> and the undated rows exactly \<open>D+1..D+U\<close>; an earlier date
  means a smaller sequence number; and every undated row comes after every dated row.
\<close>

theorem chronological_sequence_numbers:
  assumes "is_argsort argsort" "(s, c) \<in> set sector_mapping"
  shows "(\<forall>i \<in> set (dated_rows strptime df s) \<union> set (undated_rows strptime df s).
            assigned_id strptime argsort g df i
            = doc_id c (assigned_sequence strptime argsort g df i))
       \<and> assigned_sequence strptime argsort g df ` set (dated_rows strptime df s)
           = {1..length (dated_rows strptime df s)}
       \<and> assigned_sequence strptime argsort g df ` set (undated_rows strptime df s)
           = {length (dated_rows strptime df s) + 1
              ..length (dated_rows strptime df s) + length (undated_rows strptime df s)}
       \<and> (\<forall>A \<in> set (dated_rows strptime df s). \<forall>B \<in> set (dated_rows strptime df s).
             the (parsed strptime df A) < the (parsed strptime df B)
             \<longrightarrow> assigned_sequence strptime argsort g df A < assigned_sequence strptime argsort g df B)
       \<and> (\<forall>A \<in> set (dated_rows strptime df s). \<forall>B \<in> set (undated_rows strptime df s).
             assigned_sequence strptime argsort g df A < assigned_sequence strptime argsort g df B)"
proof -
  let ?D = "dated_rows strptime df s" and ?U = "undated_rows strptime df s"
  let ?ds = "date_order argsort strptime df s"
  let ?seq = "assigned_sequence strptime argsort g df"
  obtain us where us: "mset us = mset ?U"
    and lab: "labelled c (?ds @ us)
                (map Document_ID (returned (create_unique_ids strptime argsort g df)))"
    using final_labelled[OF assms, of strptime df g] by blast
  note pos = sequence_of_position[OF assms us lab]
  have set_ds: "set ?ds = set ?D" by (rule date_order_set[OF assms(1)])
  have set_us: "set us = set ?U" using us by (rule mset_eq_setD)
  have len_ds: "length ?ds = length ?D"
    using date_order_mset[OF assms(1), of strptime df s] by (rule mset_eq_length)
  have len_us: "length us = length ?U" using us by (rule mset_eq_length)
  have seq_ds: "\<forall>k < length ?ds. ?seq (?ds ! k) = 1 + k"
  proof (intro allI impI)
    fix k assume "k < length ?ds"
    then show "?seq (?ds ! k) = 1 + k"
      using pos(2)[of k] by (simp add: nth_append)
  qed
  have seq_us: "\<forall>k < length us. ?seq (us ! k) = (length ?D + 1) + k"
  proof (intro allI impI)
    fix k assume "k < length us"
    then show "?seq (us ! k) = (length ?D + 1) + k"
      using pos(2)[of "length ?ds + k"] len_ds by (simp add: nth_append)
  qed
  have p1: "\<forall>i \<in> set ?D \<union> set ?U. assigned_id strptime argsort g df i = doc_id c (?seq i)"
  proof
    fix i assume "i \<in> set ?D \<union> set ?U"
    then have "i \<in> set (?ds @ us)"
      using set_ds set_us by simp
    then obtain k where "k < length (?ds @ us)" "(?ds @ us) ! k = i"
      by (meson in_set_conv_nth)
    then show "assigned_id strptime argsort g df i = doc_id c (?seq i)"
      using pos[of k] by simp
  qed
  have "{1..<1 + length ?D} = {1..length ?D}"
    by auto
  then have p2: "?seq ` set ?D = {1..length ?D}"
    using image_positions[OF seq_ds] set_ds len_ds by simp
  have "{length ?D + 1..<(length ?D + 1) + length ?U} = {length ?D + 1..length ?D + length ?U}"
    by auto
  then have p3: "?seq ` set ?U = {length ?D + 1..length ?D + length ?U}"
    using image_positions[OF seq_us] set_us len_us by simp
  have p4: "\<forall>A \<in> set ?D. \<forall>B \<in> set ?D.
             the (parsed strptime df A) < the (parsed strptime df B) \<longrightarrow> ?seq A < ?seq B"
  proof (intro ballI impI)
    fix A B
    assume A: "A \<in> set ?D" and B: "B \<in> set ?D"
      and lt: "the (parsed strptime df A) < the (parsed strptime df B)"
    obtain k where k: "k < length ?ds" "?ds ! k = A"
      using A set_ds by (metis in_set_conv_nth)
    obtain l where l: "l < length ?ds" "?ds ! l = B"
      using B set_ds by (metis in_set_conv_nth)
    have "k < l"
    proof (rule ccontr)
      assume "\<not> k < l"
      then have "l \<le> k" by simp
      from sorted_nth_mono[OF date_order_sorted[OF assms(1), of strptime df s] this] k(1)
      have "the (parsed strptime df B) \<le> the (parsed strptime df A)"
        using k(2) l by simp
      with lt show False by simp
    qed
    with seq_ds k l show "?seq A < ?seq B"
      by auto
  qed
  have p5: "\<forall>A \<in> set ?D. \<forall>B \<in> set ?U. ?seq A < ?seq B"
  proof (intro ballI)
    fix A B assume "A \<in> set ?D" "B \<in> set ?U"
    then have "?seq A \<in> {1..length ?D}" "?seq B \<in> {length ?D + 1..length ?D + length ?U}"
      using p2 p3 by blast+
    then show "?seq A < ?seq B" by simp
  qed
  from p1 p2 p3 p4 p5 show ?thesis
    by (intro conjI)
qed

subsection \<open>Categories outside the mapping\<close>

lemma process_sector_stdout:
  assumes "is_argsort a"
    "e \<in> set (stdout (process_sector a df (map (\<lambda>r. parse_date P (Date r)) df) (s, c) st))"
  shows "e \<in> set (stdout st) \<or> event_sector df e = Some s"
proof (cases "filter (\<lambda>idx. Sector (df ! idx) = Some s) [0..<length df] = []")
  case True
  with assms(2) show ?thesis
    by (auto simp: process_sector_def)
next
  case False
  have ds: "idx \<in> set (date_order a P df s) \<Longrightarrow> Sector (df ! idx) = Some s" for idx
    using date_order_set[OF assms(1), of P df s] by (simp add: in_dated_rows)
  show ?thesis
  proof (cases "undated_rows P df s = []")
    case True
    with False assms(2) show ?thesis
      by (auto simp: process_sector_def Let_def sort_values_sector
          filter_date_order[OF assms(1)] filter_undated_rows in_set_enumerate_eq ds
          simp del: not_None_eq)
  next
    case nonempty: False
    obtain us g' where sh: "random_shuffle (random_state st) (undated_rows P df s) = (us, g')"
      by (cases "random_shuffle (random_state st) (undated_rows P df s)")
    then have "mset us = mset (undated_rows P df s)"
      using random_shuffle_mset[of "random_state st" "undated_rows P df s"] by simp
    then have "set us = set (undated_rows P df s)"
      by (rule mset_eq_setD)
    then have us: "k < length us \<Longrightarrow> Sector (df ! (us ! k)) = Some s" for k
      using nth_mem[of k us] by (simp add: in_undated_rows)
    from False nonempty sh assms(2) show ?thesis
      by (auto simp: process_sector_def Let_def sort_values_sector
          filter_date_order[OF assms(1)] filter_undated_rows in_set_enumerate_eq ds us
          simp del: not_None_eq)
  qed
qed

lemma loop_stdout:
  assumes "is_argsort a"
    "e \<in> set (stdout (fold (process_sector a df (map (\<lambda>r. parse_date P (Date r)) df)) items st))"
  shows "e \<in> set (stdout st) \<or> event_sector df e \<in> Some ` fst ` set items"
  using assms(2)
proof (induction items arbitrary: st)
  case Nil
  then show ?case by simp
next
  case (Cons item items)
  obtain s c where item: "item = (s, c)" by (cases item)
  from Cons.IH[of "process_sector a df (map (\<lambda>r. parse_date P (Date r)) df) item st"] Cons.prems
  have "e \<in> set (stdout (process_sector a df (map (\<lambda>r. parse_date P (Date r)) df) item st))
        \<or> event_sector df e \<in> Some ` fst ` set items"
    by simp
  then show ?case
    using process_sector_stdout[OF assms(1), of e df P s c st] item by auto
qed

text \<open>
  C1, as the code has it. A row whose sector is not a key of \<open>sector_mapping\<close> is never
  visited by the loop: it keeps the empty \<^verbatim>\<open>Document_ID\<close>. Every row of a sector of the
  mapping receives an identifier. Nothing is raised or returned about the skipped
  sector, and every printed line is about a sector of the mapping or one of its rows.
\<close>

theorem unmapped_category_skipped_silently:
  assumes "is_argsort argsort"
  shows "(\<forall>i. i < length df \<and> Sector (df ! i) \<notin> Some ` fst ` set sector_mapping
            \<longrightarrow> assigned_id strptime argsort g df i = [])
       \<and> (\<forall>i. i < length df \<and> Sector (df ! i) \<in> Some ` fst ` set sector_mapping
            \<longrightarrow> assigned_id strptime argsort g df i \<noteq> [])
       \<and> (\<forall>e \<in> set (printed (create_unique_ids strptime argsort g df)).
            event_sector df e \<in> Some ` fst ` set sector_mapping)"
proof (intro conjI allI impI ballI)
  fix i assume h: "i < length df \<and> Sector (df ! i) \<notin> Some ` fst ` set sector_mapping"
  then have "\<forall>(s, c) \<in> set sector_mapping. Sector (df ! i) \<noteq> Some s"
    by force
  from final_unmapped[OF assms _ this] h show "assigned_id strptime argsort g df i = []"
    by (simp add: assigned_id_def)
next
  fix i assume h: "i < length df \<and> Sector (df ! i) \<in> Some ` fst ` set sector_mapping"
  then obtain s c where sc: "(s, c) \<in> set sector_mapping" "Sector (df ! i) = Some s"
    by force
  obtain us where us: "mset us = mset (undated_rows strptime df s)"
    and lab: "labelled c (date_order argsort strptime df s @ us)
                (map Document_ID (returned (create_unique_ids strptime argsort g df)))"
    using final_labelled[OF assms sc(1), of strptime df g] by blast
  from final_position[OF assms sc(1) us lab, of i] h sc(2)
  show "assigned_id strptime argsort g df i \<noteq> []"
    by (auto simp: assigned_id_def doc_id_nonempty)
next
  fix e assume "e \<in> set (printed (create_unique_ids strptime argsort g df))"
  then have "e \<in> set (stdout (fold (process_sector argsort df
      (map (\<lambda>r. parse_date strptime (Date r)) df)) sector_mapping
      \<lparr>ids = replicate (length df) [], random_state = g, stdout = []\<rparr>))"
    by (simp add: create_unique_ids_def Let_def)
  from loop_stdout[OF assms this]
  show "event_sector df e \<in> Some ` fst ` set sector_mapping"
    by simp
qed

subsection \<open>The random generator\<close>

text \<open>
  C2, as the code has it. \<^verbatim>\<open>create_unique_ids(df)\<close> has no seed parameter; the shuffle draws
  from the generator of the process, so the result is a function of the frame and of the
  state the generator is in when the call starts. Whatever that state, the rows with a
  parsed date get the same identifier: the generator decides the identifiers of undated
  rows only.
\<close>

theorem randomness_confined_to_undated_rows:
  assumes "is_argsort argsort" "i < length df" "parsed strptime df i \<noteq> None"
  shows "assigned_id strptime argsort g1 df i = assigned_id strptime argsort g2 df i"
proof (cases "\<exists>s c. (s, c) \<in> set sector_mapping \<and> Sector (df ! i) = Some s")
  case False
  then have "\<forall>(s, c) \<in> set sector_mapping. Sector (df ! i) \<noteq> Some s"
    by auto
  from final_unmapped[OF assms(1,2) this] show ?thesis
    by (simp add: assigned_id_def)
next
  case True
  then obtain s c where sc: "(s, c) \<in> set sector_mapping" "Sector (df ! i) = Some s"
    by blast
  let ?ds = "date_order argsort strptime df s"
  have "i \<in> set ?ds"
    using date_order_set[OF assms(1), of strptime df s] assms(2,3) sc(2)
    by (simp add: in_dated_rows)
  then obtain k where k: "k < length ?ds" "?ds ! k = i"
    by (meson in_set_conv_nth)
  have "assigned_id strptime argsort g df i = doc_id c (Suc k)" for g
  proof -
    obtain us where us: "mset us = mset (undated_rows strptime df s)"
      and lab: "labelled c (?ds @ us)
                  (map Document_ID (returned (create_unique_ids strptime argsort g df)))"
      using final_labelled[OF assms(1) sc(1), of strptime df g] by blast
    from sequence_of_position(1)[OF assms(1) sc(1) us lab, of k] k
    show ?thesis by (simp add: nth_append)
  qed
  then show ?thesis by simp
qed

subsection \<open>Records with equal dates\<close>

lemma filter_before:
  assumes "sorted_wrt R (filter Q ys)" "k < l" "l < length ys" "Q (ys ! k)" "Q (ys ! l)"
  shows "R (ys ! k) (ys ! l)"
  using assms
proof (induction ys arbitrary: k l)
  case Nil
  then show ?case by simp
next
  case (Cons y ys)
  obtain l' where l': "l = Suc l'"
    using Cons.prems(2) by (cases l) auto
  show ?case
  proof (cases k)
    case 0
    with Cons.prems l' show ?thesis
      by auto
  next
    case (Suc k')
    have "sorted_wrt R (filter Q ys)"
      using Cons.prems(1) by (cases "Q y") auto
    from Cons.IH[OF this, of k' l'] Cons.prems Suc l' show ?thesis
      by simp
  qed
qed

lemma stable_date_order_filter:
  "filter (\<lambda>idx. the (parsed P df idx) = d) (date_order stable_argsort P df s)
   = filter (\<lambda>idx. the (parsed P df idx) = d) (dated_rows P df s)"
proof -
  let ?xs = "dated_rows P df s"
  let ?f = "\<lambda>idx. the (parsed P df idx)"
  let ?key = "\<lambda>k. map ?f ?xs ! k"
  let ?L = "sort_key ?key [0..<length ?xs]"
  have key: "k \<in> set [0..<length ?xs] \<Longrightarrow> ?key k = ?f (?xs ! k)" for k
    by simp
  have setL: "set ?L = set [0..<length ?xs]"
    by simp
  have "filter (\<lambda>idx. ?f idx = d) (date_order stable_argsort P df s)
        = map (\<lambda>k. ?xs ! k) (filter (\<lambda>k. ?f (?xs ! k) = d) ?L)"
    by (simp add: date_order_def Let_def stable_argsort_def filter_map comp_def)
  also have "filter (\<lambda>k. ?f (?xs ! k) = d) ?L = filter (\<lambda>k. ?key k = d) ?L"
    by (rule filter_cong) (use setL key in auto)
  also have "\<dots> = filter (\<lambda>k. ?key k = d) [0..<length ?xs]"
    by (rule sort_key_stable)
  also have "\<dots> = filter (\<lambda>k. ?f (?xs ! k) = d) [0..<length ?xs]"
    by (rule filter_cong) (use key in auto)
  also have "map (\<lambda>k. ?xs ! k) (filter (\<lambda>k. ?f (?xs ! k) = d) [0..<length ?xs])
             = filter (\<lambda>idx. ?f idx = d) (map (\<lambda>k. ?xs ! k) [0..<length ?xs])"
    by (simp add: filter_map comp_def)
  also have "\<dots> = filter (\<lambda>idx. ?f idx = d) ?xs"
    by (simp add: map_nth)
  finally show ?thesis .
qed

text \<open>
  C3, as the code has it. Two dated rows \<open>A\<close> and \<open>B\<close> of a sector with equal parsed dates
  get sequence numbers with nothing but rows of the same date between them, whatever the
  sorting routine; they keep their input order when the routine is stable. The call in
  the source names no stable kind, and the default one promises no order among equal
  keys.
\<close>

theorem equal_dates_adjacent_and_stable_order:
  assumes "is_argsort argsort" "(s, c) \<in> set sector_mapping"
    "A \<in> set (dated_rows strptime df s)" "B \<in> set (dated_rows strptime df s)"
    "parsed strptime df A = parsed strptime df B"
  shows "(\<forall>C \<in> set (dated_rows strptime df s).
            assigned_sequence strptime argsort g df A \<le> assigned_sequence strptime argsort g df C
            \<and> assigned_sequence strptime argsort g df C \<le> assigned_sequence strptime argsort g df B
            \<longrightarrow> parsed strptime df C = parsed strptime df A)
       \<and> (A < B \<longrightarrow> assigned_sequence strptime stable_argsort g df A
                       < assigned_sequence strptime stable_argsort g df B)"
proof (intro conjI ballI impI)
  let ?ds = "date_order argsort strptime df s"
  let ?f = "\<lambda>idx. the (parsed strptime df idx)"
  let ?seq = "assigned_sequence strptime argsort g df"
  fix C
  assume C: "C \<in> set (dated_rows strptime df s)" and between: "?seq A \<le> ?seq C \<and> ?seq C \<le> ?seq B"
  obtain us where us: "mset us = mset (undated_rows strptime df s)"
    and lab: "labelled c (?ds @ us)
                (map Document_ID (returned (create_unique_ids strptime argsort g df)))"
    using final_labelled[OF assms(1,2), of strptime df g] by blast
  have set_ds: "set ?ds = set (dated_rows strptime df s)"
    by (rule date_order_set[OF assms(1)])
  have pos: "k < length ?ds \<Longrightarrow> ?seq (?ds ! k) = Suc k" for k
    using sequence_of_position(2)[OF assms(1,2) us lab, of k] by (simp add: nth_append)
  obtain a where a: "a < length ?ds" "?ds ! a = A"
    using assms(3) set_ds by (metis in_set_conv_nth)
  obtain b where b: "b < length ?ds" "?ds ! b = B"
    using assms(4) set_ds by (metis in_set_conv_nth)
  obtain k where k: "k < length ?ds" "?ds ! k = C"
    using C set_ds by (metis in_set_conv_nth)
  from between pos[OF a(1)] pos[OF b(1)] pos[OF k(1)] a b k have ord: "a \<le> k" "k \<le> b"
    by simp_all
  note srt = date_order_sorted[OF assms(1), of strptime df s]
  from sorted_nth_mono[OF srt ord(1)] k a have "?f A \<le> ?f C"
    by simp
  moreover from sorted_nth_mono[OF srt ord(2)] k b have "?f C \<le> ?f B"
    by simp
  moreover have "?f A = ?f B"
    using assms(5) by simp
  ultimately have "?f C = ?f A"
    by simp
  moreover have "parsed strptime df C \<noteq> None" "parsed strptime df A \<noteq> None"
    using C assms(3) by (simp_all add: in_dated_rows)
  ultimately show "parsed strptime df C = parsed strptime df A"
    by (metis option.expand)
next
  let ?ds = "date_order stable_argsort strptime df s"
  let ?f = "\<lambda>idx. the (parsed strptime df idx)"
  let ?seq = "assigned_sequence strptime stable_argsort g df"
  assume lt: "A < B"
  note st = stable_is_argsort
  obtain us where us: "mset us = mset (undated_rows strptime df s)"
    and lab: "labelled c (?ds @ us)
                (map Document_ID (returned (create_unique_ids strptime stable_argsort g df)))"
    using final_labelled[OF st assms(2), of strptime df g] by blast
  have set_ds: "set ?ds = set (dated_rows strptime df s)"
    by (rule date_order_set[OF st])
  have pos: "k < length ?ds \<Longrightarrow> ?seq (?ds ! k) = Suc k" for k
    using sequence_of_position(2)[OF st assms(2) us lab, of k] by (simp add: nth_append)
  obtain a where a: "a < length ?ds" "?ds ! a = A"
    using assms(3) set_ds by (metis in_set_conv_nth)
  obtain b where b: "b < length ?ds" "?ds ! b = B"
    using assms(4) set_ds by (metis in_set_conv_nth)
  have "sorted_wrt (<) (filter (\<lambda>idx. ?f idx = ?f A) (dated_rows strptime df s))"
    unfolding dated_rows_def by (intro sorted_wrt_filter) simp
  then have sw: "sorted_wrt (<) (filter (\<lambda>idx. ?f idx = ?f A) ?ds)"
    by (simp only: stable_date_order_filter)
  have "a < b"
  proof (rule ccontr)
    assume "\<not> a < b"
    moreover have "a \<noteq> b"
      using a b lt by auto
    ultimately have "b < a" by simp
    from filter_before[OF sw this a(1)] a b assms(5) have "B < A"
      by simp
    with lt show False by simp
  qed
  with pos[OF a(1)] pos[OF b(1)] a b show "?seq A < ?seq B"
    by simp
qed

subsection \<open>The theorems at example frames\<close>

text \<open>
  \<open>example_frame\<close> has two dated rows of sector Doprava (the later date first), a row of
  a sector \<open>Z\<close> that is not in the mapping, and two undated rows of Doprava (one with an
  empty date, one with a text that is no date).
\<close>

lemma example_frame_run:
  "map Document_ID (returned (create_unique_ids strptime_dmY stable_argsort (\<lambda>k. 0) example_frame))
   = [py ''1.002'', py ''1.001'', [], py ''1.004'', py ''1.003'']"
  by code_simp

lemma example_frame_parsed:
  "map (parsed strptime_dmY example_frame) [0..<5]
   = [Some (2020, 1, 1), Some (2019, 6, 15), Some (2019, 6, 15), None, None]"
  by code_simp

lemma example_frame_sectors:
  "map Sector example_frame
   = [Some (py ''Doprava''), Some (py ''Doprava''), Some (py ''Z''), Some (py ''Doprava''),
      Some (py ''Doprava'')]"
  by code_simp

lemma example_frame_rows:
  "dated_rows strptime_dmY example_frame (py ''Doprava'') = [0, 1]"
  "undated_rows strptime_dmY example_frame (py ''Doprava'') = [3, 4]"
  by code_simp+

lemma Doprava_mapped: "(py ''Doprava'', 1) \<in> set sector_mapping"
  by (simp add: sector_mapping_def)

lemma Z_unmapped: "Some (py ''Z'') \<notin> Some ` fst ` set sector_mapping"
  by (simp add: sector_mapping_def py_def)

lemma example_frame_length: "length example_frame = 5"
  by (simp add: example_frame_def)

lemma example_frame_id:
  "i < 5 \<Longrightarrow> assigned_id strptime_dmY stable_argsort (\<lambda>k. 0) example_frame i
     = [py ''1.002'', py ''1.001'', [], py ''1.004'', py ''1.003''] ! i"
  unfolding assigned_id_def example_frame_run[symmetric]
  by (simp add: returned_length example_frame_length)

theorem document_id_format_and_uniqueness_witness:
  "is_argsort stable_argsort
   \<and> Document_ID (returned (create_unique_ids strptime_dmY stable_argsort (\<lambda>k. 0) example_frame) ! 0)
     \<noteq> Document_ID (returned (create_unique_ids strptime_dmY stable_argsort (\<lambda>k. 0) example_frame) ! 1)"
proof -
  have "Document_ID (returned (create_unique_ids strptime_dmY stable_argsort (\<lambda>k. 0) example_frame) ! 0)
        \<noteq> []"
    using example_frame_id[of 0] by (simp add: assigned_id_def py_def)
  moreover have "(0::nat) < length example_frame \<and> (1::nat) < length example_frame \<and> (0::nat) \<noteq> 1"
    by (simp add: example_frame_length)
  ultimately show ?thesis
    using document_id_format_and_uniqueness[OF stable_is_argsort, of example_frame strptime_dmY "\<lambda>k. 0"]
      stable_is_argsort
    by blast
qed

theorem chronological_sequence_numbers_witness:
  "is_argsort stable_argsort \<and> (py ''Doprava'', 1) \<in> set sector_mapping
   \<and> assigned_sequence strptime_dmY stable_argsort (\<lambda>k. 0) example_frame 1
     < assigned_sequence strptime_dmY stable_argsort (\<lambda>k. 0) example_frame 0
   \<and> assigned_sequence strptime_dmY stable_argsort (\<lambda>k. 0) example_frame 0
     < assigned_sequence strptime_dmY stable_argsort (\<lambda>k. 0) example_frame 3"
proof -
  have "the (parsed strptime_dmY example_frame 1) < the (parsed strptime_dmY example_frame 0)"
    using example_frame_parsed by (simp add: upt_rec numeral_eq_Suc)
  moreover have "(1::nat) \<in> set (dated_rows strptime_dmY example_frame (py ''Doprava''))"
    "(0::nat) \<in> set (dated_rows strptime_dmY example_frame (py ''Doprava''))"
    "(3::nat) \<in> set (undated_rows strptime_dmY example_frame (py ''Doprava''))"
    by (simp_all add: example_frame_rows)
  ultimately show ?thesis
    using chronological_sequence_numbers[OF stable_is_argsort Doprava_mapped,
        of strptime_dmY example_frame "\<lambda>k. 0"] stable_is_argsort Doprava_mapped
    by blast
qed

theorem unmapped_category_skipped_silently_witness:
  "is_argsort stable_argsort
   \<and> assigned_id strptime_dmY stable_argsort (\<lambda>k. 0) example_frame 2 = []
   \<and> assigned_id strptime_dmY stable_argsort (\<lambda>k. 0) example_frame 0 \<noteq> []"
proof -
  have "Sector (example_frame ! 2) \<notin> Some ` fst ` set sector_mapping"
    using Z_unmapped by (simp add: example_frame_def example_row_def)
  moreover have "Sector (example_frame ! 0) \<in> Some ` fst ` set sector_mapping"
    using Doprava_mapped by (force simp: example_frame_def example_row_def)
  moreover have "(2::nat) < length example_frame" "(0::nat) < length example_frame"
    by (simp_all add: example_frame_length)
  ultimately show ?thesis
    using unmapped_category_skipped_silently[OF stable_is_argsort,
        of example_frame strptime_dmY "\<lambda>k. 0"] stable_is_argsort
    by blast
qed

theorem randomness_confined_to_undated_rows_witness:
  "is_argsort stable_argsort \<and> (0::nat) < length example_frame
   \<and> parsed strptime_dmY example_frame 0 \<noteq> None
   \<and> assigned_id strptime_dmY stable_argsort (\<lambda>k. 0) example_frame 0
     = assigned_id strptime_dmY stable_argsort (\<lambda>k. k) example_frame 0"
proof -
  have p: "parsed strptime_dmY example_frame 0 \<noteq> None"
    using example_frame_parsed by (simp add: upt_rec numeral_eq_Suc)
  have l: "(0::nat) < length example_frame"
    by (simp add: example_frame_length)
  from randomness_confined_to_undated_rows[OF stable_is_argsort l p, of "\<lambda>k. 0" "\<lambda>k. k"]
    stable_is_argsort l p
  show ?thesis by simp
qed

lemma example_ties_rows:
  "dated_rows strptime_dmY example_ties (py ''Doprava'') = [0, 1]"
  "parsed strptime_dmY example_ties 0 = parsed strptime_dmY example_ties 1"
  by code_simp+

theorem equal_dates_adjacent_and_stable_order_witness:
  "is_argsort stable_argsort \<and> (py ''Doprava'', 1) \<in> set sector_mapping
   \<and> assigned_sequence strptime_dmY stable_argsort (\<lambda>k. 0) example_ties 0
     < assigned_sequence strptime_dmY stable_argsort (\<lambda>k. 0) example_ties 1"
proof -
  have m: "(0::nat) \<in> set (dated_rows strptime_dmY example_ties (py ''Doprava''))"
    "(1::nat) \<in> set (dated_rows strptime_dmY example_ties (py ''Doprava''))"
    by (simp_all add: example_ties_rows)
  from equal_dates_adjacent_and_stable_order[OF stable_is_argsort Doprava_mapped m
      example_ties_rows(2), of "\<lambda>k. 0"] stable_is_argsort Doprava_mapped
  show ?thesis by simp
qed

text \<open>
  The claims as the specification states them fail at these inputs. C3: a frame of 18
  rows of sector Doprava, all dated 01.01.2020. More than 17 keys are partitioned before
  the insertion sort: the pivot is swapped to position 16, the scans stop at every key
  equal to it, and the entries at positions 1 and 15, 2 and 14, ..., 7 and 9 change
  places. The second row of the frame gets sequence number 16 and the sixteenth row gets
  sequence number 2.
\<close>

lemma aquicksort_eighteen_ties:
  "aquicksort heapsort_not_reached (replicate 18 (2020, 1, 1))
   = Some [0, 15, 14, 13, 12, 11, 10, 9, 8, 7, 6, 5, 4, 3, 2, 1, 16, 17]"
  by code_simp

lemma example_eighteen_ties_parsed:
  "map (parsed strptime_dmY example_eighteen_ties) [0..<18] = replicate 18 (Some (2020, 1, 1))"
  by code_simp

theorem quicksort_ties_counterexample:
  "aquicksort heapsort_not_reached (replicate 18 (2020, 1, 1))
     = Some [0, 15, 14, 13, 12, 11, 10, 9, 8, 7, 6, 5, 4, 3, 2, 1, 16, 17]
   \<and> map (parsed strptime_dmY example_eighteen_ties) [0..<18] = replicate 18 (Some (2020, 1, 1))
   \<and> map Document_ID (returned (create_unique_ids strptime_dmY (numpy_argsort heapsort_not_reached)
         (\<lambda>k. 0) example_eighteen_ties))
     = [py ''1.001'', py ''1.016'', py ''1.015'', py ''1.014'', py ''1.013'', py ''1.012'',
        py ''1.011'', py ''1.010'', py ''1.009'', py ''1.008'', py ''1.007'', py ''1.006'',
        py ''1.005'', py ''1.004'', py ''1.003'', py ''1.002'', py ''1.017'', py ''1.018'']"
proof -
  have "map Document_ID (returned (create_unique_ids strptime_dmY (numpy_argsort heapsort_not_reached)
         (\<lambda>k. 0) example_eighteen_ties))
     = [py ''1.001'', py ''1.016'', py ''1.015'', py ''1.014'', py ''1.013'', py ''1.012'',
        py ''1.011'', py ''1.010'', py ''1.009'', py ''1.008'', py ''1.007'', py ''1.006'',
        py ''1.005'', py ''1.004'', py ''1.003'', py ''1.002'', py ''1.017'', py ''1.018'']"
    by code_simp
  with aquicksort_eighteen_ties example_eighteen_ties_parsed show ?thesis
    by (intro conjI)
qed

text \<open>
  C1: the row of the unknown sector \<open>Z\<close> is passed over; the call returns as usual, and
  none of the lines it prints names \<open>Z\<close> or counts its rows.
\<close>

theorem unknown_category_counterexample:
  "map Document_ID (returned (create_unique_ids strptime_dmY stable_argsort (\<lambda>k. 0) example_unmapped))
     = [[], py ''1.001'']
   \<and> printed (create_unique_ids strptime_dmY stable_argsort (\<lambda>k. 0) example_unmapped)
     = [Processing_sector (py ''Doprava'') 1, Found_documents 1 (py ''Doprava''),
        Assigned_with_date (py ''1.001'') 1,
        Processing_sector (py ''Informatizacia'') 2, No_documents_found (py ''Informatizacia''),
        Processing_sector (py ''Budovy'') 3, No_documents_found (py ''Budovy''),
        Processing_sector (py ''Obrana'') 4, No_documents_found (py ''Obrana''),
        Processing_sector (py ''Ostatne'') 5, No_documents_found (py ''Ostatne'')]"
  by code_simp

text \<open>
  C2: two calls in a row with the same arguments, the second starting where the first
  left the generator, number the two undated rows differently.
\<close>

theorem ambient_generator_counterexample:
  "map Document_ID (returned (create_unique_ids strptime_dmY stable_argsort (\<lambda>k. k) example_undated))
     = [py ''1.002'', py ''1.001'']
   \<and> map Document_ID (returned (create_unique_ids strptime_dmY stable_argsort
         (random_after (create_unique_ids strptime_dmY stable_argsort (\<lambda>k. k) example_undated))
         example_undated))
     = [py ''1.001'', py ''1.002'']"
  by code_simp

section \<open>Properties of the scrapers\<close>

subsection \<open>The type classifier\<close>



subsection \<open>Deduplication\<close>










subsection \<open>Failures while reading a node\<close>







subsection \<open>Where a regular expression matches\<close>














subsection \<open>The size pattern\<close>




end
